theory Spec2Isabelle
  imports Main "HOL-Library.Word" "HOL-Library.Sublist"
begin

unbundle bit_operations_syntax

section \<open>The thumbnail provider of \<^verbatim>\<open>src/thumb_win32.cc\<close>\<close>

text \<open>
  The development follows \<^verbatim>\<open>CKisekiThumb::GetThumbnail\<close>. The function drains the
  stream into \<^verbatim>\<open>buffer\<close> (lines 86-98), looks for the closing tag and cuts the
  bytes behind it (lines 100-116), hands them to the Windows Imaging Component
  (lines 118-189) and wraps the pixels into a bitmap (lines 191-198). Each of these
  segments is one definition below, and \<open>GetThumbnail\<close> composes them in the order
  of the source.

  Bytes (\<^verbatim>\<open>char\<close>, \<^verbatim>\<open>unsigned char\<close>, \<^verbatim>\<open>uint8_t\<close>) are values of type \<^typ>\<open>char\<close>,
  which is an 8-bit type here; the conversion between the three C++ types keeps
  the bit pattern. \<^verbatim>\<open>UINT\<close>, \<^verbatim>\<open>int\<close> and \<^verbatim>\<open>HRESULT\<close> are 32-bit words.
  A vector iterator is the offset from \<^verbatim>\<open>begin()\<close>, so \<^verbatim>\<open>end()\<close> is the length;
  iterator arithmetic is the unchecked pointer arithmetic of a release build, and
  \<open>valid_iterator\<close> says which offsets the language allows.
  Allocation is taken to succeed (\<^verbatim>\<open>std::bad_alloc\<close> is not part of the model), the
  size of \<^verbatim>\<open>jpegData\<close> is taken to fit the \<^verbatim>\<open>DWORD\<close> it is passed as, and the
  \<^verbatim>\<open>Release\<close> calls, which do not influence the result, are left out.
\<close>

subsection \<open>Result codes\<close>

type_synonym byte = char
type_synonym UINT = "32 word"
type_synonym HRESULT = "32 word"

definition S_OK :: HRESULT where
  "S_OK = 0"

definition E_FAIL :: HRESULT where
  "E_FAIL = 0x80004005"

text \<open>The macros \<^verbatim>\<open>SUCCEEDED(hr)\<close>, that is \<^verbatim>\<open>hr >= 0\<close>, and \<^verbatim>\<open>FAILED(hr)\<close>, \<^verbatim>\<open>hr < 0\<close>,
  on the signed reading of the word.\<close>

definition SUCCEEDED :: "HRESULT \<Rightarrow> bool" where
  "SUCCEEDED hr = (0 \<le> sint hr)"

definition FAILED :: "HRESULT \<Rightarrow> bool" where
  "FAILED hr = (sint hr < 0)"

subsection \<open>Finding the closing tag (lines 100-116)\<close>

definition endTag :: "byte list" where
  "endTag = ''</roblox>''"

text \<open>
  \<^verbatim>\<open>std::search(first, last, s_first, s_last)\<close> as the standard library gives it:
  for each candidate position \<open>first\<close> the inner loop walks the text and the pattern
  side by side. It returns \<open>first\<close> when the pattern is exhausted, \<open>last\<close> when the
  text is exhausted first, and moves to the next candidate on the first unequal
  pair. \<open>probe\<close> is the inner loop on the text remaining from \<open>first\<close>.
\<close>

datatype probe_result = Matched | HitEnd | Mismatch

fun probe :: "'a list \<Rightarrow> 'a list \<Rightarrow> probe_result" where
  "probe it [] = Matched"
| "probe [] (p # ps) = HitEnd"
| "probe (x # xs) (p # ps) = (if x = p then probe xs ps else Mismatch)"

text \<open>The outer loop; \<open>first\<close> is the offset of the candidate and the list is the text
  from there to \<open>last\<close>. The result is the offset of the match, or that of \<open>last\<close>.\<close>

fun search_from :: "nat \<Rightarrow> 'a list \<Rightarrow> 'a list \<Rightarrow> nat" where
  "search_from first [] pat = first"
| "search_from first (x # xs) pat =
     (case probe (x # xs) pat of
        Matched \<Rightarrow> first
      | HitEnd \<Rightarrow> first + length (x # xs)
      | Mismatch \<Rightarrow> search_from (Suc first) xs pat)"

definition search :: "'a list \<Rightarrow> 'a list \<Rightarrow> nat" where
  "search buffer pat = search_from 0 buffer pat"

text \<open>\<^verbatim>\<open>std::advance(it, n)\<close> on a random-access iterator is \<^verbatim>\<open>it += n\<close>; nothing
  in it looks at where the range ends.\<close>

definition advance :: "nat \<Rightarrow> nat \<Rightarrow> nat" where
  "advance it n = it + n"

text \<open>The iterator that line 109 forms when the tag is found.\<close>

definition advanced_it :: "byte list \<Rightarrow> nat" where
  "advanced_it buffer = advance (search buffer endTag) (length endTag + 1)"

text \<open>The positions an iterator of \<open>buffer\<close> may take: \<^verbatim>\<open>begin()\<close> up to \<^verbatim>\<open>end()\<close>.\<close>

definition valid_iterator :: "'a list \<Rightarrow> nat \<Rightarrow> bool" where
  "valid_iterator buffer it = (it \<le> length buffer)"

text \<open>
  The two early returns of the segment both give \<^verbatim>\<open>E_FAIL\<close>; the model keeps the
  return sites apart. \<open>MarkerNotFound\<close> is line 105 (\<^verbatim>\<open>Closing tag not found\<close>),
  \<open>NoPayload\<close> is line 112 (\<^verbatim>\<open>No data after the closing tag\<close>).
\<close>

datatype LocateError = MarkerNotFound | NoPayload

definition hresult_of :: "LocateError \<Rightarrow> HRESULT" where
  "hresult_of e = E_FAIL"

text \<open>On success the segment leaves \<^verbatim>\<open>jpegData\<close>, the copy of \<^verbatim>\<open>[it, buffer.end())\<close>.\<close>

definition locate :: "byte list \<Rightarrow> LocateError + byte list" where
  "locate buffer =
     (let it = search buffer endTag in
      if it = length buffer then Inl MarkerNotFound
      else
        let it = advance it (length endTag + 1) in
        if it \<ge> length buffer then Inl NoPayload
        else Inr (drop it buffer))"

subsection \<open>Occurrences of a pattern\<close>

text \<open>The pattern stands at offset \<open>m\<close> of the text.\<close>

definition occurs_at :: "'a list \<Rightarrow> 'a list \<Rightarrow> nat \<Rightarrow> bool" where
  "occurs_at pat buffer m = (m \<le> length buffer \<and> prefix pat (drop m buffer))"

definition first_occurrence :: "'a list \<Rightarrow> 'a list \<Rightarrow> nat \<Rightarrow> bool" where
  "first_occurrence pat buffer m =
     (occurs_at pat buffer m \<and> (\<forall>k<m. \<not> occurs_at pat buffer k))"

definition contains :: "'a list \<Rightarrow> 'a list \<Rightarrow> bool" where
  "contains pat buffer = (\<exists>m\<le>length buffer. occurs_at pat buffer m)"

subsection \<open>The Windows Imaging Component (lines 118-189)\<close>

text \<open>
  The codec is not part of the repository. Its calls are the fields of a record, one
  field for each call of the source, and the handle types are left open: \<open>'d\<close> for
  \<^verbatim>\<open>IWICBitmapDecoder\<close>, \<open>'f\<close> for \<^verbatim>\<open>IWICBitmapFrameDecode\<close>, \<open>'b\<close> for \<^verbatim>\<open>HBITMAP\<close>.
  The stream that \<^verbatim>\<open>CreateDecoderFromStream\<close> receives was initialised from
  \<^verbatim>\<open>jpegData\<close>, so the field takes these bytes. \<^verbatim>\<open>CopyPixels\<close> takes the frame, the
  stride and the size of the buffer and returns the bytes it stores at the start
  of the buffer.
\<close>

record ('d, 'f, 'b) wic =
  CoCreateInstance :: HRESULT
  CreateStream :: HRESULT
  InitializeFromMemory :: "byte list \<Rightarrow> HRESULT"
  CreateDecoderFromStream :: "byte list \<Rightarrow> HRESULT \<times> 'd"
  GetFrame :: "'d \<Rightarrow> UINT \<Rightarrow> HRESULT \<times> 'f"
  GetSize :: "'f \<Rightarrow> HRESULT \<times> UINT \<times> UINT"
  CopyPixels :: "'f \<Rightarrow> UINT \<Rightarrow> UINT \<Rightarrow> HRESULT \<times> byte list"
  CreateBitmap :: "32 word \<Rightarrow> 32 word \<Rightarrow> UINT \<Rightarrow> UINT \<Rightarrow> byte list \<Rightarrow> 'b option"

text \<open>\<^verbatim>\<open>struct Thumbnail\<close>. The two \<^verbatim>\<open>int\<close> fields hold the bits of the \<^verbatim>\<open>UINT\<close> assigned
  to them; \<open>sint\<close> reads them as the program does.\<close>

record Thumbnail =
  data :: "byte list"
  width :: "32 word"
  height :: "32 word"

text \<open>Line 172: \<^verbatim>\<open>(width * 3 + 3) & ~3\<close> in \<^verbatim>\<open>UINT\<close> arithmetic.\<close>

definition stride_of :: "UINT \<Rightarrow> UINT" where
  "stride_of w = (w * 3 + 3) AND NOT 3"

text \<open>A callee that stores \<open>written\<close> at the start of a buffer it was given by
  pointer and size: the vector keeps its length.\<close>

definition write_into :: "byte list \<Rightarrow> byte list \<Rightarrow> byte list" where
  "write_into buf written = take (length buf) written @ drop (length written) buf"

text \<open>
  Lines 118-170: the factory, the stream, the decoder, the first frame and its
  size. Every \<^verbatim>\<open>if (FAILED(hr)) return hr\<close> is one \<open>Inl\<close>. The locals \<^verbatim>\<open>width\<close> and
  \<^verbatim>\<open>height\<close> are \<open>w\<close> and \<open>h\<close> here, \<open>width\<close> and \<open>height\<close> being the fields of the
  record.
\<close>

definition read_descriptor :: "('d, 'f, 'b) wic \<Rightarrow> byte list \<Rightarrow> HRESULT + ('f \<times> UINT \<times> UINT)" where
  "read_descriptor wic jpegData =
     (let hr = CoCreateInstance wic in
      if FAILED hr then Inl hr else
      let hr = CreateStream wic in
      if FAILED hr then Inl hr else
      let hr = InitializeFromMemory wic jpegData in
      if FAILED hr then Inl hr else
      let (hr, pDecoder) = CreateDecoderFromStream wic jpegData in
      if FAILED hr then Inl hr else
      let (hr, pFrame) = GetFrame wic pDecoder 0 in
      if FAILED hr then Inl hr else
      let (hr, w, h) = GetSize wic pFrame in
      if FAILED hr then Inl hr else Inr (pFrame, w, h))"

text \<open>
  Lines 172-189: the stride, the buffer and the copy. \<^verbatim>\<open>height * stride\<close> is a
  product of two \<^verbatim>\<open>UINT\<close>, taken modulo \<open>2 ^ 32\<close> before it becomes the \<^verbatim>\<open>size_t\<close>
  that \<^verbatim>\<open>resize\<close> receives; \<^verbatim>\<open>resize\<close> on the fresh vector fills it with zero
  bytes. No line between \<^verbatim>\<open>GetSize\<close> and \<^verbatim>\<open>CopyPixels\<close> looks at the two numbers.
\<close>

definition copy_pixels :: "('d, 'f, 'b) wic \<Rightarrow> 'f \<Rightarrow> UINT \<Rightarrow> UINT \<Rightarrow> HRESULT + Thumbnail" where
  "copy_pixels wic pFrame w h =
     (let stride = stride_of w;
          thumb = \<lparr>data = replicate (unat (h * stride)) (CHR 0x00), width = w, height = h\<rparr>;
          (hr, pixels) = CopyPixels wic pFrame stride (of_nat (length (data thumb)));
          thumb = thumb\<lparr>data := write_into (data thumb) pixels\<rparr>
      in if FAILED hr then Inl hr else Inr thumb)"

text \<open>Lines 118-189 as a whole: from \<^verbatim>\<open>jpegData\<close> to the filled \<^verbatim>\<open>Thumbnail\<close>.\<close>

definition decode :: "('d, 'f, 'b) wic \<Rightarrow> byte list \<Rightarrow> HRESULT + Thumbnail" where
  "decode wic jpegData =
     (case read_descriptor wic jpegData of
        Inl hr \<Rightarrow> Inl hr
      | Inr (pFrame, w, h) \<Rightarrow> copy_pixels wic pFrame w h)"

subsection \<open>Reading the stream (lines 86-98)\<close>

text \<open>
  \<^verbatim>\<open>_pStream->Read(chunk, sizeof(chunk), &bytesRead)\<close> is a function of the stream's
  state and the requested count; it gives the result code, the \<^verbatim>\<open>bytesRead\<close> bytes it
  stored in \<^verbatim>\<open>chunk\<close> and the state of the stream afterwards. The do-while loop
  need not end (a stream may deliver bytes forever), so it is a partial function:
  \<open>None\<close> is the run that never leaves the loop.
\<close>

partial_function (option) read_all ::
  "('s \<Rightarrow> nat \<Rightarrow> HRESULT \<times> byte list \<times> 's) \<Rightarrow> 's \<Rightarrow> byte list \<Rightarrow> (HRESULT \<times> byte list \<times> 's) option"
where
  "read_all Read pStream buffer =
     (case Read pStream 4096 of
        (hr, chunk, pStream') \<Rightarrow>
          if SUCCEEDED hr \<and> length chunk > 0
          then read_all Read pStream' (buffer @ chunk)
          else Some (hr, buffer, pStream'))"

subsection \<open>The whole of \<^verbatim>\<open>GetThumbnail\<close>\<close>

datatype WTS_ALPHATYPE = WTSAT_UNKNOWN | WTSAT_RGB | WTSAT_ARGB

text \<open>
  What the caller sees: the result code and the two out-parameters. An
  out-parameter is \<open>None\<close> while the function has not assigned it; \<^verbatim>\<open>*phbmp\<close> is
  \<open>Some None\<close> when the null handle was stored in it.
\<close>

record 'b outcome =
  returned :: HRESULT
  phbmp :: "'b option option"
  pdwAlpha :: "WTS_ALPHATYPE option"

text \<open>Lines 100-198, everything after the loop, on the bytes the loop collected.\<close>

definition thumbnail_of_buffer :: "('d, 'f, 'b) wic \<Rightarrow> byte list \<Rightarrow> 'b outcome" where
  "thumbnail_of_buffer wic buffer =
     (case locate buffer of
        Inl e \<Rightarrow> \<lparr>returned = hresult_of e, phbmp = None, pdwAlpha = None\<rparr>
      | Inr jpegData \<Rightarrow>
          (case decode wic jpegData of
             Inl hr \<Rightarrow> \<lparr>returned = hr, phbmp = None, pdwAlpha = None\<rparr>
           | Inr thumb \<Rightarrow>
               (case CreateBitmap wic (width thumb) (height thumb) 1 24 (data thumb) of
                  None \<Rightarrow> \<lparr>returned = E_FAIL, phbmp = Some None, pdwAlpha = None\<rparr>
                | Some hbmp \<Rightarrow>
                    \<lparr>returned = S_OK, phbmp = Some (Some hbmp), pdwAlpha = Some WTSAT_RGB\<rparr>)))"

text \<open>
  The member function, with the stream \<^verbatim>\<open>_pStream\<close> that \<^verbatim>\<open>Initialize\<close> stored and
  the requested size \<open>cx\<close>. It returns what the caller sees together with the state
  in which it leaves the stream.
\<close>

definition GetThumbnail ::
  "('s \<Rightarrow> nat \<Rightarrow> HRESULT \<times> byte list \<times> 's) \<Rightarrow> ('d, 'f, 'b) wic \<Rightarrow> 's \<Rightarrow> UINT \<Rightarrow> ('b outcome \<times> 's) option"
where
  "GetThumbnail Read wic pStream cx =
     (case read_all Read pStream [] of
        None \<Rightarrow> None
      | Some (hr, buffer, pStream') \<Rightarrow>
          if FAILED hr then Some (\<lparr>returned = hr, phbmp = None, pdwAlpha = None\<rparr>, pStream')
          else Some (thumbnail_of_buffer wic buffer, pStream'))"

subsection \<open>Stand-ins for the platform\<close>

text \<open>
  A stream over a byte array with a read position, as a memory stream of the
  platform behaves: a read delivers the next bytes, at most as many as asked for,
  and reports \<^verbatim>\<open>S_OK\<close>.
\<close>

definition MemStream_Read :: "byte list \<times> nat \<Rightarrow> nat \<Rightarrow> HRESULT \<times> byte list \<times> (byte list \<times> nat)" where
  "MemStream_Read s cb =
     (case s of (content, pos) \<Rightarrow>
        let chunk = take cb (drop pos content)
        in (S_OK, chunk, (content, pos + length chunk)))"

text \<open>
  A codec in which every call succeeds, whose frame has the size \<open>w\<close> by \<open>h\<close> and
  whose \<^verbatim>\<open>CopyPixels\<close> stores \<open>pixels\<close>; the bitmap handle is the pixel array itself.
\<close>

definition stub_wic :: "UINT \<Rightarrow> UINT \<Rightarrow> byte list \<Rightarrow> (unit, unit, byte list) wic" where
  "stub_wic w h pixels =
     \<lparr>CoCreateInstance = S_OK,
      CreateStream = S_OK,
      InitializeFromMemory = (\<lambda>bytes. S_OK),
      CreateDecoderFromStream = (\<lambda>bytes. (S_OK, ())),
      GetFrame = (\<lambda>pDecoder index. (S_OK, ())),
      GetSize = (\<lambda>pFrame. (S_OK, w, h)),
      CopyPixels = (\<lambda>pFrame stride size. (S_OK, pixels)),
      CreateBitmap = (\<lambda>w h planes bpp bits. Some bits)\<rparr>"

subsection \<open>What \<open>search\<close> returns\<close>

lemma probe_Matched: "probe xs pat = Matched \<longleftrightarrow> prefix pat xs"
  by (induction xs pat rule: probe.induct) auto

lemma probe_HitEnd: "probe xs pat = HitEnd \<Longrightarrow> length xs < length pat"
  by (induction xs pat rule: probe.induct) (auto split: if_splits)

lemma occurs_at_0: "occurs_at pat xs 0 \<longleftrightarrow> prefix pat xs"
  by (simp add: occurs_at_def)

lemma occurs_at_Suc: "occurs_at pat (x # xs) (Suc k) \<longleftrightarrow> occurs_at pat xs k"
  by (simp add: occurs_at_def)

lemma occurs_at_length: "occurs_at pat xs m \<Longrightarrow> m + length pat \<le> length xs"
  by (auto simp: occurs_at_def dest!: prefix_length_le)

lemma first_occurrence_Suc:
  "first_occurrence pat (x # xs) (Suc m) \<Longrightarrow> first_occurrence pat xs m"
  unfolding first_occurrence_def
  by (metis Suc_less_eq occurs_at_Suc)

lemma search_from_first:
  "first_occurrence pat xs m \<Longrightarrow> search_from f xs pat = f + m"
proof (induction xs arbitrary: f m)
  case Nil
  then show ?case by (simp add: first_occurrence_def occurs_at_def)
next
  case (Cons x xs)
  show ?case
  proof (cases m)
    case 0
    with Cons.prems have "probe (x # xs) pat = Matched"
      by (simp add: first_occurrence_def occurs_at_0 probe_Matched)
    with 0 show ?thesis by simp
  next
    case (Suc m')
    with Cons.prems have "\<not> occurs_at pat (x # xs) 0"
      by (simp add: first_occurrence_def)
    then have nm: "probe (x # xs) pat \<noteq> Matched"
      by (simp add: occurs_at_0 probe_Matched)
    from Cons.prems have "m + length pat \<le> length (x # xs)"
      unfolding first_occurrence_def by (blast dest: occurs_at_length)
    then have nh: "probe (x # xs) pat \<noteq> HitEnd"
      using probe_HitEnd [of "x # xs" pat] by auto
    from nm nh have mm: "probe (x # xs) pat = Mismatch"
      by (cases "probe (x # xs) pat") auto
    from Cons.prems Suc have "first_occurrence pat xs m'"
      by (auto dest: first_occurrence_Suc)
    then have "search_from (Suc f) xs pat = Suc f + m'"
      by (rule Cons.IH)
    with mm Suc show ?thesis by simp
  qed
qed

lemma search_from_absent:
  "pat \<noteq> [] \<Longrightarrow> \<not> contains pat xs \<Longrightarrow> search_from f xs pat = f + length xs"
proof (induction xs arbitrary: f)
  case Nil
  then show ?case by simp
next
  case (Cons x xs)
  from Cons.prems have "\<not> occurs_at pat (x # xs) 0"
    by (auto simp: contains_def)
  then have nm: "probe (x # xs) pat \<noteq> Matched"
    by (simp add: occurs_at_0 probe_Matched)
  have "\<not> contains pat xs"
  proof
    assume "contains pat xs"
    then obtain k where "k \<le> length xs" "occurs_at pat xs k"
      by (auto simp: contains_def)
    then have "Suc k \<le> length (x # xs)" "occurs_at pat (x # xs) (Suc k)"
      by (simp_all add: occurs_at_Suc)
    with Cons.prems show False
      unfolding contains_def by blast
  qed
  with Cons have "search_from (Suc f) xs pat = Suc f + length xs"
    by blast
  with nm show ?case
    by (cases "probe (x # xs) pat") auto
qed

lemma contains_first: "contains pat xs \<Longrightarrow> \<exists>m. first_occurrence pat xs m"
proof -
  assume "contains pat xs"
  then obtain k where k: "occurs_at pat xs k" by (auto simp: contains_def)
  define m where "m = (LEAST j. occurs_at pat xs j)"
  have "occurs_at pat xs m" unfolding m_def using k by (rule LeastI)
  moreover have "\<forall>j<m. \<not> occurs_at pat xs j"
    unfolding m_def using not_less_Least by blast
  ultimately show ?thesis unfolding first_occurrence_def by blast
qed

subsection \<open>What \<open>locate\<close> returns\<close>

lemma endTag_length: "length endTag = 9"
  by (simp add: endTag_def)

lemma locate_first:
  assumes "first_occurrence endTag buffer m"
  shows "locate buffer =
           (if length buffer \<le> m + length endTag + 1 then Inl NoPayload
            else Inr (drop (m + length endTag + 1) buffer))"
proof -
  from assms have s: "search buffer endTag = m"
    by (simp add: search_def search_from_first)
  from assms have "m + length endTag \<le> length buffer"
    by (simp add: first_occurrence_def occurs_at_length)
  then have "m \<noteq> length buffer"
    by (simp add: endTag_length)
  with s show ?thesis
    by (simp add: locate_def advance_def Let_def)
qed

lemma locate_absent:
  assumes "\<not> contains endTag buffer"
  shows "locate buffer = Inl MarkerNotFound"
proof -
  have "endTag \<noteq> []" by (simp add: endTag_def)
  with assms have "search buffer endTag = length buffer"
    by (simp add: search_def search_from_absent)
  then show ?thesis by (simp add: locate_def)
qed

lemma contains_sublist: "contains pat xs \<longleftrightarrow> sublist pat xs"
proof
  assume "contains pat xs"
  then obtain m where "m \<le> length xs" "prefix pat (drop m xs)"
    by (auto simp: contains_def occurs_at_def)
  then obtain ss where "drop m xs = pat @ ss" by (auto simp: prefix_def)
  then have "xs = take m xs @ pat @ ss" by (metis append_take_drop_id)
  then show "sublist pat xs" unfolding sublist_def by blast
next
  assume "sublist pat xs"
  then obtain ps ss where xs: "xs = ps @ pat @ ss" by (auto simp: sublist_def)
  then have "occurs_at pat xs (length ps)" by (simp add: occurs_at_def)
  moreover from xs have "length ps \<le> length xs" by simp
  ultimately show "contains pat xs" unfolding contains_def by blast
qed


lemma sublist_first_occurrence:
  "sublist pat xs \<Longrightarrow> \<exists>m. first_occurrence pat xs m"
  by (simp add: contains_first contains_sublist)

lemma endTag_no_border: "0 < j \<Longrightarrow> j < 9 \<Longrightarrow> endTag ! j \<noteq> CHR ''<''"
proof -
  assume "0 < j" "j < 9"
  then have "j \<in> {1, 2, 3, 4, 5, 6, 7, 8}" by auto
  then show ?thesis by (auto simp: endTag_def)
qed

lemma first_occurrence_after_prefix:
  assumes "\<not> sublist endTag pre"
  shows "first_occurrence endTag (pre @ endTag @ rest) (length pre)"
proof -
  have here: "occurs_at endTag (pre @ endTag @ rest) (length pre)"
    by (simp add: occurs_at_def)
  have "\<not> occurs_at endTag (pre @ endTag @ rest) k" if "k < length pre" for k
  proof
    assume "occurs_at endTag (pre @ endTag @ rest) k"
    with that have p: "prefix endTag (drop k pre @ endTag @ rest)"
      by (simp add: occurs_at_def)
    define d where "d = drop k pre"
    from that have dpos: "0 < length d" by (simp add: d_def)
    show False
    proof (cases "9 \<le> length d")
      case True
      with p have "prefix endTag d"
        unfolding d_def [symmetric]
        by (metis endTag_length prefix_length_prefix prefixI)
      then obtain ss where "d = endTag @ ss" by (auto simp: prefix_def)
      then have "pre = take k pre @ endTag @ ss"
        by (metis d_def append_take_drop_id)
      then have "sublist endTag pre" unfolding sublist_def by blast
      with assms show False by simp
    next
      case False
      then have lt: "length d < 9" by simp
      from p obtain zs where "d @ endTag @ rest = endTag @ zs"
        unfolding d_def [symmetric] by (auto simp: prefix_def)
      then have "(d @ endTag @ rest) ! length d = (endTag @ zs) ! length d"
        by simp
      with lt have "endTag ! length d = CHR ''<''"
        by (simp add: nth_append endTag_length) (simp add: endTag_def)
      with endTag_no_border [OF dpos lt] show False by simp
    qed
  qed
  with here show ?thesis by (simp add: first_occurrence_def)
qed

lemma occurs_at_update:
  assumes "k + length pat \<le> i"
  shows "occurs_at pat (xs[i := b]) k \<longleftrightarrow> occurs_at pat xs k"
proof -
  have "prefix pat ys \<longleftrightarrow> take (length pat) ys = pat" for ys :: "'a list"
    by (metis append_eq_conv_conj prefix_def take_is_prefix)
  moreover have "take (length pat) (drop k (xs[i := b])) = take (length pat) (drop k xs)"
    using assms by (simp add: drop_update_swap)
  ultimately show ?thesis by (simp add: occurs_at_def)
qed

lemma first_occurrence_update:
  assumes "first_occurrence pat xs m" and "m + length pat \<le> i"
  shows "first_occurrence pat (xs[i := b]) m"
  using assms unfolding first_occurrence_def
  by (simp add: occurs_at_update)

text \<open>A payload is cut at an iterator inside the buffer.\<close>

lemma locate_payload_in_bounds:
  assumes "locate buffer = Inr jpegData"
  shows "advanced_it buffer < length buffer \<and> jpegData = drop (advanced_it buffer) buffer"
  using assms
  by (auto simp: locate_def advanced_it_def Let_def split: if_splits)

text \<open>With exactly one byte behind the first tag the advanced iterator is \<^verbatim>\<open>end()\<close>
  and line 112 returns.\<close>

lemma locate_payload_start_at_end:
  assumes "first_occurrence endTag document m"
    and "m + length endTag + 1 = length document"
  shows "valid_iterator document (advanced_it document) \<and> locate document = Inl NoPayload"
proof -
  from assms(1) have "search document endTag = m"
    by (simp add: search_def search_from_first)
  with assms(2) have "valid_iterator document (advanced_it document)"
    by (simp add: valid_iterator_def advanced_it_def advance_def)
  moreover from locate_first [OF assms(1)] assms(2) have "locate document = Inl NoPayload"
    by simp
  ultimately show ?thesis ..
qed

lemma locate_tag_and_separator_at_end:
  assumes "\<not> sublist endTag pre"
  shows "valid_iterator (pre @ endTag @ [CHR 0x00]) (advanced_it (pre @ endTag @ [CHR 0x00]))
       \<and> locate (pre @ endTag @ [CHR 0x00]) = Inl NoPayload"
  using first_occurrence_after_prefix [OF assms, of "[CHR 0x00]"]
  by (rule locate_payload_start_at_end) simp

text \<open>The advanced iterator leaves the range exactly when the tag ends the buffer.\<close>

lemma advanced_it_invalid_iff:
  assumes "first_occurrence endTag buffer m"
  shows "\<not> valid_iterator buffer (advanced_it buffer) \<longleftrightarrow> m + length endTag = length buffer"
proof -
  from assms have "search buffer endTag = m"
    by (simp add: search_def search_from_first)
  moreover from assms have "m + length endTag \<le> length buffer"
    by (simp add: first_occurrence_def occurs_at_length)
  ultimately show ?thesis
    by (auto simp: valid_iterator_def advanced_it_def advance_def)
qed

subsection \<open>Result codes and the stride\<close>

lemma FAILED_iff: "FAILED hr \<longleftrightarrow> \<not> SUCCEEDED hr"
  by (auto simp: FAILED_def SUCCEEDED_def)

lemma SUCCEEDED_S_OK: "SUCCEEDED S_OK"
  by (simp add: SUCCEEDED_def S_OK_def)

lemma Suc_Suc_diff_2: "2 \<le> n \<Longrightarrow> Suc (Suc (n - 2)) = n"
  by arith

lemma and_not_3: "(x :: 32 word) AND NOT 3 = push_bit 2 (drop_bit 2 x)"
proof -
  have m: "(3 :: 32 word) = mask 2" by (simp add: mask_eq_exp_minus_1)
  show ?thesis unfolding m
    by (rule bit_word_eqI) (auto simp: bit_simps Suc_Suc_diff_2 not_less)
qed

lemma unat_and_not_3: "unat ((x :: 32 word) AND NOT 3) = unat x div 4 * 4"
proof -
  have d: "unat (drop_bit 2 x) = unat x div 4"
    by (simp add: unat_drop_bit_eq drop_bit_eq_div [where 'a = nat])
  have "unat x < 2 ^ 32"
    using unsigned_less [of x] by simp
  then have lt: "unat x div 4 * 4 < 2 ^ 32"
    by simp
  have "unat (push_bit 2 (drop_bit 2 x)) = (unat (drop_bit 2 x) * 4) mod 2 ^ 32"
    by (simp add: push_bit_eq_mult unat_word_ariths)
  also have "\<dots> = unat x div 4 * 4"
    using lt by (simp add: d)
  finally show ?thesis by (simp only: and_not_3)
qed

lemma stride_of_unat:
  assumes "unat w * 3 + 3 < 2 ^ 32"
  shows "unat (stride_of w) = (unat w * 3 + 3) div 4 * 4"
proof -
  have "unat (w * 3 + 3) = (unat w * 3 + 3) mod 2 ^ 32"
    by (simp add: unat_word_ariths mod_simps)
  with assms have "unat (w * 3 + 3) = unat w * 3 + 3"
    by simp
  then show ?thesis
    by (simp only: stride_of_def unat_and_not_3)
qed

lemma stride_of_aligned: "unat (stride_of w) mod 4 = 0"
  by (simp only: stride_of_def unat_and_not_3) simp

lemma stride_of_padded:
  assumes "unat w * 3 + 3 < 2 ^ 32"
  shows "unat w * 3 \<le> unat (stride_of w) \<and> unat (stride_of w) < unat w * 3 + 4"
  unfolding stride_of_unat [OF assms] by presburger

lemma unat_mult_small:
  assumes "unat (a :: 32 word) * unat b < 2 ^ 32"
  shows "unat (a * b) = unat a * unat b"
  using assms by (simp add: unat_word_ariths)

lemma stride_vals: "stride_of 1 = 4" "stride_of 2 = 8" "stride_of 3 = 12" "stride_of 4 = 12"
  "stride_of 5 = 16" "stride_of 100 = 300" "stride_of 101 = 304" "stride_of 200 = 600"
  by (simp_all add: stride_of_def)

lemma sint_small:
  assumes "unat (x :: 32 word) < 2 ^ 31"
  shows "sint x = int (unat x)"
proof -
  from assms have "int (unat x) < 2 ^ 31"
    by (metis of_nat_less_iff of_nat_numeral of_nat_power)
  then have "uint x < 2 ^ 31" by simp
  moreover have "- (2 ^ 31) \<le> uint x"
    by (rule order_trans [of _ 0]) simp_all
  ultimately have "signed_take_bit 31 (uint x) = uint x"
    by (rule signed_take_bit_int_eq_self [rotated])
  then show ?thesis by (simp add: sint_uint)
qed

subsection \<open>What \<open>decode\<close> returns\<close>

lemma length_write_into: "length (write_into buf written) = length buf"
  by (simp add: write_into_def)

lemma copy_pixels_eq:
  "copy_pixels wic pFrame w h =
     (case CopyPixels wic pFrame (stride_of w) (h * stride_of w) of
        (hr, pixels) \<Rightarrow>
          if FAILED hr then Inl hr
          else Inr \<lparr>data = write_into (replicate (unat (h * stride_of w)) (CHR 0x00)) pixels,
                    width = w, height = h\<rparr>)"
  by (simp add: copy_pixels_def Let_def split: prod.splits)

lemma copy_pixels_Inr:
  assumes "copy_pixels wic pFrame w h = Inr thumb"
  shows "width thumb = w \<and> height thumb = h \<and> length (data thumb) = unat (h * stride_of w)"
  using assms
  by (auto simp: copy_pixels_eq length_write_into split: prod.splits if_splits)

lemma decode_Inr:
  assumes "decode wic jpegData = Inr thumb"
  shows "\<exists>pFrame. read_descriptor wic jpegData = Inr (pFrame, width thumb, height thumb)
           \<and> copy_pixels wic pFrame (width thumb) (height thumb) = Inr thumb"
  using assms
  by (auto simp: decode_def split: sum.splits dest: copy_pixels_Inr)

lemma decode_after_descriptor:
  assumes "read_descriptor wic jpegData = Inr (pFrame, w, h)"
  shows "decode wic jpegData =
           (case CopyPixels wic pFrame (stride_of w) (h * stride_of w) of
              (hr, pixels) \<Rightarrow>
                if FAILED hr then Inl hr
                else Inr \<lparr>data = write_into (replicate (unat (h * stride_of w)) (CHR 0x00)) pixels,
                          width = w, height = h\<rparr>)"
  using assms by (simp add: decode_def copy_pixels_eq)

text \<open>The six answers of the codec that lines 118-170 wait for.\<close>

lemma read_descriptor_answers:
  assumes "SUCCEEDED (CoCreateInstance wic)"
    and "SUCCEEDED (CreateStream wic)"
    and "SUCCEEDED (InitializeFromMemory wic jpegData)"
    and "CreateDecoderFromStream wic jpegData = (hr1, pDecoder)" and "SUCCEEDED hr1"
    and "GetFrame wic pDecoder 0 = (hr2, pFrame)" and "SUCCEEDED hr2"
    and "GetSize wic pFrame = (hr3, w, h)" and "SUCCEEDED hr3"
  shows "read_descriptor wic jpegData = Inr (pFrame, w, h)"
  using assms by (simp add: read_descriptor_def FAILED_iff)

lemma stub_wic_answers:
  "CoCreateInstance (stub_wic w h pixels) = S_OK"
  "CreateStream (stub_wic w h pixels) = S_OK"
  "InitializeFromMemory (stub_wic w h pixels) jpegData = S_OK"
  "CreateDecoderFromStream (stub_wic w h pixels) jpegData = (S_OK, ())"
  "GetFrame (stub_wic w h pixels) pDecoder index = (S_OK, ())"
  "GetSize (stub_wic w h pixels) pFrame = (S_OK, w, h)"
  "CopyPixels (stub_wic w h pixels) pFrame stride cb = (S_OK, pixels)"
  by (simp_all add: stub_wic_def)

lemma decode_stub:
  "decode (stub_wic w h pixels) jpegData =
     Inr \<lparr>data = write_into (replicate (unat (h * stride_of w)) (CHR 0x00)) pixels,
          width = w, height = h\<rparr>"
  by (simp add: decode_def read_descriptor_def copy_pixels_eq stub_wic_def FAILED_iff
      SUCCEEDED_S_OK)

lemma read_descriptor_stub:
  "read_descriptor (stub_wic w h pixels) jpegData = Inr ((), w, h)"
  by (simp add: read_descriptor_def stub_wic_def FAILED_iff SUCCEEDED_S_OK)

subsection \<open>The read loop and the whole function\<close>

text \<open>On a memory stream the loop ends, with the bytes from the read position on.\<close>

lemma read_all_MemStream:
  "read_all MemStream_Read (content, pos) buffer =
     Some (S_OK, buffer @ drop pos content, (content, max pos (length content)))"
proof (induction "length content - pos" arbitrary: pos buffer rule: less_induct)
  case less
  define chunk where "chunk = take 4096 (drop pos content)"
  have rd: "MemStream_Read (content, pos) 4096 = (S_OK, chunk, (content, pos + length chunk))"
    by (simp add: MemStream_Read_def chunk_def Let_def)
  show ?case
  proof (cases "chunk = []")
    case True
    then have "length content \<le> pos"
      by (auto simp: chunk_def)
    with True rd show ?thesis
      by (subst read_all.simps) (simp add: max_def)
  next
    case False
    then have lt: "pos < length content"
      by (auto simp: chunk_def)
    with False have "length content - (pos + length chunk) < length content - pos"
      by (cases chunk) auto
    then have "read_all MemStream_Read (content, pos + length chunk) (buffer @ chunk) =
      Some (S_OK, (buffer @ chunk) @ drop (pos + length chunk) content,
            (content, max (pos + length chunk) (length content)))"
      by (rule less.hyps)
    moreover have "chunk @ drop (pos + length chunk) content = drop pos content"
    proof -
      have "drop (pos + length chunk) content = drop (length chunk) (drop pos content)"
        by (simp add: add.commute)
      also have "\<dots> = drop 4096 (drop pos content)"
        by (simp add: chunk_def min_def)
      finally have "chunk @ drop (pos + length chunk) content
                      = take 4096 (drop pos content) @ drop 4096 (drop pos content)"
        by (simp only: chunk_def)
      then show ?thesis
        by (simp only: append_take_drop_id)
    qed
    moreover have "pos + length chunk \<le> length content"
      using lt by (simp add: chunk_def)
    ultimately have "read_all MemStream_Read (content, pos + length chunk) (buffer @ chunk) =
      Some (S_OK, buffer @ drop pos content, (content, length content))"
      by (simp add: max_def)
    with False rd lt show ?thesis
      by (subst read_all.simps) (simp add: SUCCEEDED_S_OK max_def)
  qed
qed

lemma GetThumbnail_MemStream:
  "GetThumbnail MemStream_Read wic (content, pos) cx =
     Some (thumbnail_of_buffer wic (drop pos content), (content, max pos (length content)))"
  by (simp add: GetThumbnail_def read_all_MemStream FAILED_iff SUCCEEDED_S_OK)

lemma thumbnail_of_buffer_bitmap:
  assumes "phbmp (thumbnail_of_buffer wic buffer) = Some (Some hbmp)"
  shows "\<exists>jpegData pFrame thumb.
           locate buffer = Inr jpegData
           \<and> read_descriptor wic jpegData = Inr (pFrame, width thumb, height thumb)
           \<and> decode wic jpegData = Inr thumb
           \<and> CreateBitmap wic (width thumb) (height thumb) 1 24 (data thumb) = Some hbmp"
proof -
  from assms obtain jpegData where l: "locate buffer = Inr jpegData"
    by (cases "locate buffer") (auto simp: thumbnail_of_buffer_def)
  with assms obtain thumb where d: "decode wic jpegData = Inr thumb"
    by (cases "decode wic jpegData") (auto simp: thumbnail_of_buffer_def)
  with l assms have "CreateBitmap wic (width thumb) (height thumb) 1 24 (data thumb) = Some hbmp"
    by (auto simp: thumbnail_of_buffer_def split: option.splits)
  moreover from decode_Inr [OF d] obtain pFrame where
    "read_descriptor wic jpegData = Inr (pFrame, width thumb, height thumb)"
    by blast
  ultimately show ?thesis using l d by blast
qed

lemma GetThumbnail_Some:
  assumes "GetThumbnail Read wic pStream cx = Some (out, s)"
  shows "\<exists>hr buffer. read_all Read pStream [] = Some (hr, buffer, s)
           \<and> out = (if FAILED hr then \<lparr>returned = hr, phbmp = None, pdwAlpha = None\<rparr>
                     else thumbnail_of_buffer wic buffer)"
proof (cases "read_all Read pStream []")
  case None
  with assms show ?thesis by (simp add: GetThumbnail_def)
next
  case (Some r)
  obtain hr buffer s' where r: "r = (hr, buffer, s')" by (cases r)
  with Some assms have "s' = s"
    and "out = (if FAILED hr then \<lparr>returned = hr, phbmp = None, pdwAlpha = None\<rparr>
                else thumbnail_of_buffer wic buffer)"
    by (auto simp: GetThumbnail_def split: if_splits)
  with Some r show ?thesis by blast
qed

lemma thumbnail_of_buffer_Nil:
  "thumbnail_of_buffer wic [] = \<lparr>returned = E_FAIL, phbmp = None, pdwAlpha = None\<rparr>"
  by (simp add: thumbnail_of_buffer_def locate_def search_def endTag_def hresult_of_def)

text \<open>The stream is left at its end, so a second call on the same object collects no
  bytes and returns at line 105.\<close>

lemma GetThumbnail_second_call:
  assumes "GetThumbnail MemStream_Read wic (content, pos) cx = Some (out, s)"
  shows "GetThumbnail MemStream_Read wic s cx2 =
           Some (\<lparr>returned = E_FAIL, phbmp = None, pdwAlpha = None\<rparr>, s)"
proof -
  from assms have s: "s = (content, max pos (length content))"
    by (simp add: GetThumbnail_MemStream)
  show ?thesis
    unfolding s by (simp add: GetThumbnail_MemStream thumbnail_of_buffer_Nil)
qed

text \<open>A document with a four-byte payload, and a codec whose frame is 2 by 1.\<close>

lemma locate_example: "locate (''ab</roblox>'' @ [CHR 0x00] @ ''JPEG'') = Inr ''JPEG''"
  by (simp add: locate_def search_def endTag_def advance_def)

lemma thumbnail_of_buffer_example:
  "thumbnail_of_buffer (stub_wic 2 1 ''RGBRGB'') (''ab</roblox>'' @ [CHR 0x00] @ ''JPEG'') =
     \<lparr>returned = S_OK, phbmp = Some (Some (''RGBRGB'' @ [CHR 0x00, CHR 0x00])),
      pdwAlpha = Some WTSAT_RGB\<rparr>"
proof -
  have "unat ((1 :: UINT) * stride_of 2) = 8"
    by (simp add: stride_of_def)
  moreover have "write_into (replicate 8 (CHR 0x00)) ''RGBRGB'' = ''RGBRGB'' @ [CHR 0x00, CHR 0x00]"
    by code_simp
  ultimately have "decode (stub_wic 2 1 ''RGBRGB'') ''JPEG'' =
     Inr \<lparr>data = ''RGBRGB'' @ [CHR 0x00, CHR 0x00], width = 2, height = 1\<rparr>"
    by (simp only: decode_stub)
  moreover have "CreateBitmap (stub_wic 2 1 ''RGBRGB'') 2 1 1 24 (''RGBRGB'' @ [CHR 0x00, CHR 0x00])
                   = Some (''RGBRGB'' @ [CHR 0x00, CHR 0x00])"
    by (simp add: stub_wic_def)
  ultimately show ?thesis
    by (simp add: thumbnail_of_buffer_def locate_example [simplified])
qed

section \<open>The locator\<close>

text \<open>
  Claim C5 (marker absence). A document of any length, the empty one included,
  in which the bytes \<^verbatim>\<open></roblox>\<close> do not occur is answered at line 105: the
  locator fails with \<open>MarkerNotFound\<close>.
\<close>

theorem locate_marker_absent:
  assumes "\<not> sublist endTag document"
  shows "locate document = Inl MarkerNotFound"
  using assms by (simp add: locate_absent contains_sublist)

theorem locate_marker_absent_witness:
  "\<not> sublist endTag ''<roblox></roblo'' \<and> locate ''<roblox></roblo'' = Inl MarkerNotFound
   \<and> \<not> sublist endTag [] \<and> locate [] = Inl MarkerNotFound"
proof -
  have a: "\<not> sublist endTag ''<roblox></roblo''"
    by (simp add: endTag_def sublist_code)
  have b: "\<not> sublist endTag []"
    by (simp add: endTag_def)
  from a b locate_marker_absent [OF a] locate_marker_absent [OF b] show ?thesis
    by simp
qed

text \<open>
  Claim C3 (locator extraction). When the tag occurs and \<open>m\<close> is the offset of its
  first occurrence, the forward search stops at \<open>m\<close>; every payload the locator
  returns is the document from offset \<open>m + length endTag + 1\<close> to its end, and it
  returns one as soon as a byte stands at that offset.
\<close>

theorem locate_first_occurrence_payload:
  assumes "first_occurrence endTag document m"
  shows "search document endTag = m
         \<and> (\<forall>payload. locate document = Inr payload \<longrightarrow>
               m + length endTag + 1 < length document
               \<and> payload = drop (m + length endTag + 1) document)
         \<and> (m + length endTag + 1 < length document \<longrightarrow>
               locate document = Inr (drop (m + length endTag + 1) document))"
proof -
  from assms have "search document endTag = m"
    by (simp add: search_def search_from_first)
  moreover from locate_first [OF assms]
  have "\<forall>payload. locate document = Inr payload \<longrightarrow>
               m + length endTag + 1 < length document
               \<and> payload = drop (m + length endTag + 1) document"
    by (auto split: if_splits)
  moreover from locate_first [OF assms]
  have "m + length endTag + 1 < length document \<longrightarrow>
               locate document = Inr (drop (m + length endTag + 1) document)"
    by simp
  ultimately show ?thesis by blast
qed

theorem locate_first_occurrence_payload_witness:
  "first_occurrence endTag (''ab</roblox>'' @ [CHR 0x00] @ ''JP</roblox>zz'') 2
   \<and> search (''ab</roblox>'' @ [CHR 0x00] @ ''JP</roblox>zz'') endTag = 2
   \<and> locate (''ab</roblox>'' @ [CHR 0x00] @ ''JP</roblox>zz'') = Inr ''JP</roblox>zz''"
proof -
  have f: "first_occurrence endTag (''ab</roblox>'' @ [CHR 0x00] @ ''JP</roblox>zz'') 2"
    by (simp add: first_occurrence_def occurs_at_def endTag_def less_Suc_eq numeral_2_eq_2)
  from locate_first_occurrence_payload [OF f] f show ?thesis
    by (simp add: endTag_def)
qed


text \<open>
  Claim C10 (the separator is not looked at). When the tag first occurs at \<open>m\<close> and
  at least two bytes follow it, the locator succeeds whatever byte \<open>b\<close> stands
  right after the tag, zero or not, and the payload, the document from offset
  \<open>m + length endTag + 1\<close> on, is the same for every \<open>b\<close>.
\<close>

theorem locate_separator_unchecked:
  assumes "first_occurrence endTag document m"
    and "m + length endTag + 2 \<le> length document"
  shows "locate (document[m + length endTag := b]) = Inr (drop (m + length endTag + 1) document)"
proof -
  have "first_occurrence endTag (document[m + length endTag := b]) m"
    using assms(1) by (rule first_occurrence_update) simp
  from locate_first [OF this] assms(2) show ?thesis
    by (simp add: drop_update_cancel)
qed

theorem locate_separator_unchecked_witness:
  "first_occurrence endTag ''</roblox>?JP'' 0
   \<and> 0 + length endTag + 2 \<le> length ''</roblox>?JP''
   \<and> locate (''</roblox>?JP''[0 + length endTag := CHR ''!'']) = Inr ''JP''
   \<and> locate (''</roblox>?JP''[0 + length endTag := CHR 0x00]) = Inr ''JP''"
proof -
  have f: "first_occurrence endTag ''</roblox>?JP'' 0"
    by (simp add: first_occurrence_def occurs_at_def endTag_def)
  have l: "0 + length endTag + 2 \<le> length ''</roblox>?JP''"
    by (simp add: endTag_def)
  from locate_separator_unchecked [OF f l, of "CHR ''!''"]
       locate_separator_unchecked [OF f l, of "CHR 0x00"] f l
  show ?thesis by (simp add: endTag_def)
qed

text \<open>
  Claim C7 (bounded access). The payload is read inside the buffer
  (\<open>locate_payload_in_bounds\<close>), but the iterator arithmetic of the locator does not
  stay inside it. For the nine bytes \<^verbatim>\<open></roblox>\<close> the search stops at offset 0, line 109
  advances the iterator by 10 and so forms the position 10 in a buffer whose
  \<^verbatim>\<open>end()\<close> is 9; the comparison of line 111 comes after that step and then returns
  at line 112.
\<close>

theorem advance_past_end:
  "search ''</roblox>'' endTag = 0
   \<and> advanced_it ''</roblox>'' = 10
   \<and> length ''</roblox>'' = 9
   \<and> \<not> valid_iterator ''</roblox>'' (advanced_it ''</roblox>'')
   \<and> locate ''</roblox>'' = Inl NoPayload"
  by (simp add: search_def advanced_it_def advance_def endTag_def valid_iterator_def locate_def)

section \<open>The decoder\<close>

text \<open>
  Claim C1 (round trip). Let the document be a text prefix without the tag, the
  tag, one zero byte and a non-empty payload, and let the codec accept the payload:
  the factory and the stream are created, the stream takes the payload, the decoder
  and its first frame are delivered, \<^verbatim>\<open>GetSize\<close> reports \<open>w\<close> by \<open>h\<close> for that frame and
  \<^verbatim>\<open>CopyPixels\<close> succeeds. Then the locator returns the payload, and the decoder
  returns an image whose width and height are \<open>w\<close> and \<open>h\<close> (also as the signed \<^verbatim>\<open>int\<close>
  of the struct, below \<open>2 ^ 31\<close>) and whose buffer has \<open>h * stride\<close> bytes, the product
  taken in \<^verbatim>\<open>UINT\<close>. The witness is the 200 by 100 image of the scenario, with
  \<open>100 * 600\<close> bytes.
\<close>

theorem round_trip:
  assumes "\<not> sublist endTag textPrefix"
    and "jpeg \<noteq> []"
    and "SUCCEEDED (CoCreateInstance wic)"
    and "SUCCEEDED (CreateStream wic)"
    and "SUCCEEDED (InitializeFromMemory wic jpeg)"
    and "CreateDecoderFromStream wic jpeg = (hr1, pDecoder)" and "SUCCEEDED hr1"
    and "GetFrame wic pDecoder 0 = (hr2, pFrame)" and "SUCCEEDED hr2"
    and "GetSize wic pFrame = (hr3, w, h)" and "SUCCEEDED hr3"
    and "CopyPixels wic pFrame (stride_of w) (h * stride_of w) = (hr4, pixels)"
    and "SUCCEEDED hr4"
  shows "locate (textPrefix @ endTag @ [CHR 0x00] @ jpeg) = Inr jpeg
       \<and> (\<exists>thumb. decode wic jpeg = Inr thumb \<and> width thumb = w \<and> height thumb = h
             \<and> length (data thumb) = unat (h * stride_of w)
             \<and> (unat w < 2 ^ 31 \<longrightarrow> sint (width thumb) = int (unat w))
             \<and> (unat h < 2 ^ 31 \<longrightarrow> sint (height thumb) = int (unat h)))"
proof -
  have f: "first_occurrence endTag (textPrefix @ endTag @ [CHR 0x00] @ jpeg) (length textPrefix)"
    using assms(1) by (rule first_occurrence_after_prefix)
  from assms(2) have "locate (textPrefix @ endTag @ [CHR 0x00] @ jpeg) = Inr jpeg"
    using locate_first [OF f] by simp
  moreover
  have rd: "read_descriptor wic jpeg = Inr (pFrame, w, h)"
    using assms(3-11) by (rule read_descriptor_answers)
  from decode_after_descriptor [OF rd] assms(12,13)
  have "decode wic jpeg =
          Inr \<lparr>data = write_into (replicate (unat (h * stride_of w)) (CHR 0x00)) pixels,
               width = w, height = h\<rparr>"
    by (simp add: FAILED_iff)
  moreover have "sint x = int (unat x)" if "unat x < 2 ^ 31" for x :: "32 word"
    using that by (rule sint_small)
  ultimately show ?thesis
    by (simp add: length_write_into)
qed

theorem round_trip_witness:
  "\<not> sublist endTag ''<roblox>...''
   \<and> locate (''<roblox>...'' @ endTag @ [CHR 0x00] @ ''JPEG'') = Inr ''JPEG''
   \<and> GetSize (stub_wic 200 100 ''RGB'') () = (S_OK, 200, 100)
   \<and> (\<exists>thumb. decode (stub_wic 200 100 ''RGB'') ''JPEG'' = Inr thumb
         \<and> sint (width thumb) = 200 \<and> sint (height thumb) = 100
         \<and> length (data thumb) = 100 * 600)"
proof -
  let ?wic = "stub_wic 200 100 ''RGB''"
  have a: "\<not> sublist endTag ''<roblox>...''"
    by (simp add: endTag_def sublist_code)
  have b: "''JPEG'' \<noteq> []" by simp
  have s: "SUCCEEDED (CoCreateInstance ?wic)" "SUCCEEDED (CreateStream ?wic)"
    "SUCCEEDED (InitializeFromMemory ?wic ''JPEG'')"
    by (simp_all only: stub_wic_answers SUCCEEDED_S_OK)
  have c: "CreateDecoderFromStream ?wic ''JPEG'' = (S_OK, ())"
    and d: "GetFrame ?wic () 0 = (S_OK, ())"
    and e: "GetSize ?wic () = (S_OK, 200, 100)"
    and g: "CopyPixels ?wic () (stride_of 200) (100 * stride_of 200) = (S_OK, ''RGB'')"
    by (rule stub_wic_answers)+
  have n: "unat ((100 :: UINT) * stride_of 200) = 100 * 600"
    by (simp add: stride_vals)
  from round_trip [OF a b s c SUCCEEDED_S_OK d SUCCEEDED_S_OK e SUCCEEDED_S_OK g SUCCEEDED_S_OK]
    a e n
  show ?thesis by auto
qed

text \<open>
  Claim C2 (dimension validation), as amended. The code has no check of the
  dimensions. Whatever \<open>w\<close> and \<open>h\<close> the call of \<^verbatim>\<open>GetSize\<close> reports, zero or as large as
  the type allows, the decoder goes on to \<^verbatim>\<open>CopyPixels\<close> with the stride
  \<^verbatim>\<open>(w * 3 + 3) & ~3\<close> and a buffer of \<open>h * stride\<close> bytes (modulo \<open>2 ^ 32\<close>, its
  allocation at line 178 taken to succeed); it then fails exactly when that call
  fails, with the code of that call, and otherwise returns the image of \<open>w\<close> by \<open>h\<close>.
  The witness is a frame of 65535 by 65535, whose \<open>w * h * 3\<close> bytes exceed \<open>2 ^ 32\<close>: it
  is decoded into a buffer of 4294770688 bytes.
\<close>

theorem decode_applies_no_dimension_check:
  assumes "SUCCEEDED (CoCreateInstance wic)"
    and "SUCCEEDED (CreateStream wic)"
    and "SUCCEEDED (InitializeFromMemory wic jpegData)"
    and "CreateDecoderFromStream wic jpegData = (hr1, pDecoder)" and "SUCCEEDED hr1"
    and "GetFrame wic pDecoder 0 = (hr2, pFrame)" and "SUCCEEDED hr2"
    and "GetSize wic pFrame = (hr3, w, h)" and "SUCCEEDED hr3"
    and "CopyPixels wic pFrame ((w * 3 + 3) AND NOT 3) (h * ((w * 3 + 3) AND NOT 3)) = (hr, pixels)"
  shows "(FAILED hr \<longrightarrow> decode wic jpegData = Inl hr)
       \<and> (SUCCEEDED hr \<longrightarrow>
            (\<exists>thumb. decode wic jpegData = Inr thumb \<and> width thumb = w \<and> height thumb = h
               \<and> length (data thumb) = unat (h * ((w * 3 + 3) AND NOT 3))))"
proof -
  have rd: "read_descriptor wic jpegData = Inr (pFrame, w, h)"
    using assms(1-9) by (rule read_descriptor_answers)
  from assms(10) have "CopyPixels wic pFrame (stride_of w) (h * stride_of w) = (hr, pixels)"
    by (simp only: stride_of_def)
  with decode_after_descriptor [OF rd]
  have "(FAILED hr \<longrightarrow> decode wic jpegData = Inl hr)
       \<and> (SUCCEEDED hr \<longrightarrow>
            (\<exists>thumb. decode wic jpegData = Inr thumb \<and> width thumb = w \<and> height thumb = h
               \<and> length (data thumb) = unat (h * stride_of w)))"
    by (simp add: FAILED_iff length_write_into)
  then show ?thesis by (simp only: stride_of_def)
qed

theorem decode_applies_no_dimension_check_witness:
  "GetSize (stub_wic 65535 65535 []) () = (S_OK, 65535, 65535)
   \<and> (2 :: nat) ^ 32 < 65535 * 65535 * 3
   \<and> (\<exists>thumb. decode (stub_wic 65535 65535 []) ''JPEG'' = Inr thumb
         \<and> width thumb = 65535 \<and> height thumb = 65535
         \<and> length (data thumb) = 4294770688)
   \<and> GetSize (stub_wic 0 0 []) () = (S_OK, 0, 0)
   \<and> (\<exists>thumb. decode (stub_wic 0 0 []) ''JPEG'' = Inr thumb
         \<and> width thumb = 0 \<and> height thumb = 0 \<and> length (data thumb) = 0)"
proof -
  have big: "\<exists>thumb. decode (stub_wic 65535 65535 []) ''JPEG'' = Inr thumb
         \<and> width thumb = 65535 \<and> height thumb = 65535
         \<and> length (data thumb) = unat ((65535 :: UINT) * ((65535 * 3 + 3) AND NOT 3))"
    using decode_applies_no_dimension_check [of "stub_wic 65535 65535 []" "''JPEG''" S_OK "()" S_OK "()" S_OK
        65535 65535 S_OK "[]"]
    by (simp only: stub_wic_answers SUCCEEDED_S_OK simp_thms)
  have zero: "\<exists>thumb. decode (stub_wic 0 0 []) ''JPEG'' = Inr thumb
         \<and> width thumb = 0 \<and> height thumb = 0
         \<and> length (data thumb) = unat ((0 :: UINT) * ((0 * 3 + 3) AND NOT 3))"
    using decode_applies_no_dimension_check [of "stub_wic 0 0 []" "''JPEG''" S_OK "()" S_OK "()" S_OK
        0 0 S_OK "[]"]
    by (simp only: stub_wic_answers SUCCEEDED_S_OK simp_thms)
  have n: "unat ((65535 :: UINT) * ((65535 * 3 + 3) AND NOT 3)) = 4294770688"
    by simp
  have z: "unat ((0 :: UINT) * ((0 * 3 + 3) AND NOT 3)) = 0"
    by simp
  from big zero show ?thesis
    unfolding n z by (simp add: stub_wic_answers)
qed

text \<open>The claim as it was stated fails for a frame of size 0 by 0: the decoder does not
  fail, it returns an image without pixels.\<close>

theorem decode_zero_dimensions_counterexample:
  "read_descriptor (stub_wic 0 0 []) ''JPEG'' = Inr ((), 0, 0)
   \<and> decode (stub_wic 0 0 []) ''JPEG'' = Inr \<lparr>data = [], width = 0, height = 0\<rparr>"
  by (simp add: read_descriptor_stub decode_stub write_into_def)

text \<open>
  Claim C6 (stride and buffer size). After every successful decode, \<^verbatim>\<open>CopyPixels\<close> was
  called with the stride \<^verbatim>\<open>(width * 3 + 3) & ~3\<close> and the buffer has \<open>height * stride\<close>
  bytes, both in the \<^verbatim>\<open>UINT\<close> arithmetic of the source. Where the numbers stay below
  \<open>2 ^ 32\<close> the stride is \<open>width * 3\<close> rounded up to a multiple of 4 and the length is
  the product of natural numbers; this is so for the widths 1, 2, 3, 4, 5, 100 and
  101 with any height below \<open>2 ^ 23\<close>.
\<close>

theorem decode_stride_and_buffer_size:
  assumes "decode wic jpegData = Inr thumb"
  shows "(\<exists>pFrame hr pixels.
            CopyPixels wic pFrame ((width thumb * 3 + 3) AND NOT 3)
              (height thumb * ((width thumb * 3 + 3) AND NOT 3)) = (hr, pixels)
            \<and> SUCCEEDED hr)
       \<and> length (data thumb) = unat (height thumb * ((width thumb * 3 + 3) AND NOT 3))
       \<and> (unat (width thumb) * 3 + 3 < 2 ^ 32
            \<and> unat (height thumb) * ((unat (width thumb) * 3 + 3) div 4 * 4) < 2 ^ 32 \<longrightarrow>
           length (data thumb) = unat (height thumb) * ((unat (width thumb) * 3 + 3) div 4 * 4))
       \<and> (width thumb \<in> {1, 2, 3, 4, 5, 100, 101} \<and> unat (height thumb) < 2 ^ 23 \<longrightarrow>
           length (data thumb) = unat (height thumb) * ((unat (width thumb) * 3 + 3) div 4 * 4))"
proof -
  from decode_Inr [OF assms] obtain pFrame where
    cp: "copy_pixels wic pFrame (width thumb) (height thumb) = Inr thumb"
    by blast
  then have "\<exists>hr pixels.
      CopyPixels wic pFrame (stride_of (width thumb)) (height thumb * stride_of (width thumb))
        = (hr, pixels) \<and> SUCCEEDED hr"
    by (auto simp: copy_pixels_eq FAILED_iff split: prod.splits if_splits)
  then have c1: "\<exists>pFrame hr pixels.
            CopyPixels wic pFrame ((width thumb * 3 + 3) AND NOT 3)
              (height thumb * ((width thumb * 3 + 3) AND NOT 3)) = (hr, pixels)
            \<and> SUCCEEDED hr"
    unfolding stride_of_def by blast
  from copy_pixels_Inr [OF cp]
  have len: "length (data thumb) = unat (height thumb * stride_of (width thumb))"
    by simp
  then have c2: "length (data thumb) = unat (height thumb * ((width thumb * 3 + 3) AND NOT 3))"
    by (simp only: stride_of_def)
  have c3: "length (data thumb) = unat (height thumb) * ((unat (width thumb) * 3 + 3) div 4 * 4)"
    if "unat (width thumb) * 3 + 3 < 2 ^ 32"
      and "unat (height thumb) * ((unat (width thumb) * 3 + 3) div 4 * 4) < 2 ^ 32"
  proof -
    from that(1) have s: "unat (stride_of (width thumb)) = (unat (width thumb) * 3 + 3) div 4 * 4"
      by (rule stride_of_unat)
    with that(2) have "unat (height thumb) * unat (stride_of (width thumb)) < 2 ^ 32"
      by simp
    then have "unat (height thumb * stride_of (width thumb))
                 = unat (height thumb) * unat (stride_of (width thumb))"
      by (rule unat_mult_small)
    with len s show ?thesis by simp
  qed
  have c4: "length (data thumb) = unat (height thumb) * ((unat (width thumb) * 3 + 3) div 4 * 4)"
    if "width thumb \<in> {1, 2, 3, 4, 5, 100, 101}" and "unat (height thumb) < 2 ^ 23"
  proof -
    from that(1) have "unat (width thumb) \<le> 101"
      by auto
    then have a: "unat (width thumb) * 3 + 3 < 2 ^ 32"
      and b: "(unat (width thumb) * 3 + 3) div 4 * 4 \<le> 2 ^ 9"
      by simp_all
    have "unat (height thumb) * ((unat (width thumb) * 3 + 3) div 4 * 4)
            \<le> unat (height thumb) * 2 ^ 9"
      using b by (rule mult_le_mono2)
    also from that(2) have "unat (height thumb) * 2 ^ 9 < 2 ^ 32"
      by simp
    finally have "unat (height thumb) * ((unat (width thumb) * 3 + 3) div 4 * 4) < 2 ^ 32" .
    with a show ?thesis by (rule c3)
  qed
  from c1 c2 c3 c4 show ?thesis by blast
qed

theorem decode_stride_and_buffer_size_witness:
  "\<exists>thumb. decode (stub_wic 101 7 ''RGB'') ''JPEG'' = Inr thumb
     \<and> width thumb = 101 \<and> height thumb = 7 \<and> length (data thumb) = 7 * 304"
proof -
  define thumb where
    "thumb = \<lparr>data = write_into (replicate (unat ((7 :: UINT) * stride_of 101)) (CHR 0x00)) ''RGB'',
              width = 101, height = 7\<rparr>"
  have d: "decode (stub_wic 101 7 ''RGB'') ''JPEG'' = Inr thumb"
    by (simp only: decode_stub thumb_def)
  have "width thumb = 101" "height thumb = 7"
    by (simp_all add: thumb_def)
  with decode_stride_and_buffer_size [OF d] d show ?thesis
    by auto
qed

section \<open>The whole function\<close>

text \<open>
  Claim C8 (the requested size is ignored). The result of \<^verbatim>\<open>GetThumbnail\<close>, result
  code, out-parameters and state of the stream, is the same for any two values of
  \<open>cx\<close>; and a bitmap it returns was made by \<^verbatim>\<open>CreateBitmap\<close> from the decoded image at
  the width and height that the frame reported, and from nothing else.
\<close>

theorem GetThumbnail_ignores_cx:
  "GetThumbnail Read wic pStream cx = GetThumbnail Read wic pStream cx'
   \<and> (\<forall>out s hbmp.
         GetThumbnail Read wic pStream cx = Some (out, s) \<and> phbmp out = Some (Some hbmp) \<longrightarrow>
         (\<exists>hr buffer jpegData pFrame thumb.
            read_all Read pStream [] = Some (hr, buffer, s)
            \<and> locate buffer = Inr jpegData
            \<and> read_descriptor wic jpegData = Inr (pFrame, width thumb, height thumb)
            \<and> decode wic jpegData = Inr thumb
            \<and> CreateBitmap wic (width thumb) (height thumb) 1 24 (data thumb) = Some hbmp))"
proof -
  have "GetThumbnail Read wic pStream cx = GetThumbnail Read wic pStream cx'"
    by (simp add: GetThumbnail_def)
  moreover
  have "\<exists>hr buffer jpegData pFrame thumb.
            read_all Read pStream [] = Some (hr, buffer, s)
            \<and> locate buffer = Inr jpegData
            \<and> read_descriptor wic jpegData = Inr (pFrame, width thumb, height thumb)
            \<and> decode wic jpegData = Inr thumb
            \<and> CreateBitmap wic (width thumb) (height thumb) 1 24 (data thumb) = Some hbmp"
    if g: "GetThumbnail Read wic pStream cx = Some (out, s)" and p: "phbmp out = Some (Some hbmp)"
    for out s hbmp
  proof -
    from GetThumbnail_Some [OF g] obtain hr buffer where
      r: "read_all Read pStream [] = Some (hr, buffer, s)"
      and o: "out = (if FAILED hr then \<lparr>returned = hr, phbmp = None, pdwAlpha = None\<rparr>
                     else thumbnail_of_buffer wic buffer)"
      by blast
    from o p have "phbmp (thumbnail_of_buffer wic buffer) = Some (Some hbmp)"
      by (auto split: if_splits)
    from thumbnail_of_buffer_bitmap [OF this] r show ?thesis
      by blast
  qed
  ultimately show ?thesis by blast
qed

theorem GetThumbnail_ignores_cx_witness:
  "GetThumbnail MemStream_Read (stub_wic 2 1 ''RGBRGB'')
      (''ab</roblox>'' @ [CHR 0x00] @ ''JPEG'', 0) 256
    = GetThumbnail MemStream_Read (stub_wic 2 1 ''RGBRGB'')
      (''ab</roblox>'' @ [CHR 0x00] @ ''JPEG'', 0) 32
   \<and> GetThumbnail MemStream_Read (stub_wic 2 1 ''RGBRGB'')
      (''ab</roblox>'' @ [CHR 0x00] @ ''JPEG'', 0) 256
    = Some (\<lparr>returned = S_OK, phbmp = Some (Some (''RGBRGB'' @ [CHR 0x00, CHR 0x00])),
             pdwAlpha = Some WTSAT_RGB\<rparr>,
            (''ab</roblox>'' @ [CHR 0x00] @ ''JPEG'', 16))
   \<and> (\<exists>thumb. decode (stub_wic 2 1 ''RGBRGB'') ''JPEG'' = Inr thumb
         \<and> width thumb = 2 \<and> height thumb = 1
         \<and> CreateBitmap (stub_wic 2 1 ''RGBRGB'') (width thumb) (height thumb) 1 24 (data thumb)
             = Some (''RGBRGB'' @ [CHR 0x00, CHR 0x00]))"
proof -
  let ?doc = "''ab</roblox>'' @ [CHR 0x00] @ ''JPEG''"
  let ?wic = "stub_wic 2 1 ''RGBRGB''"
  let ?out = "\<lparr>returned = S_OK, phbmp = Some (Some (''RGBRGB'' @ [CHR 0x00, CHR 0x00])),
             pdwAlpha = Some WTSAT_RGB\<rparr>"
  have g: "GetThumbnail MemStream_Read ?wic (?doc, 0) 256 = Some (?out, (?doc, 16))"
    using GetThumbnail_MemStream [of ?wic ?doc 0 256]
    by (simp only: thumbnail_of_buffer_example drop_0) simp
  have p: "phbmp ?out = Some (Some (''RGBRGB'' @ [CHR 0x00, CHR 0x00]))"
    by simp
  from GetThumbnail_ignores_cx [of MemStream_Read ?wic "(?doc, 0)" 256 32]
  have same: "GetThumbnail MemStream_Read ?wic (?doc, 0) 256
                = GetThumbnail MemStream_Read ?wic (?doc, 0) 32"
    and "\<exists>hr buffer jpegData pFrame thumb.
            read_all MemStream_Read (?doc, 0) [] = Some (hr, buffer, (?doc, 16))
            \<and> locate buffer = Inr jpegData
            \<and> read_descriptor ?wic jpegData = Inr (pFrame, width thumb, height thumb)
            \<and> decode ?wic jpegData = Inr thumb
            \<and> CreateBitmap ?wic (width thumb) (height thumb) 1 24 (data thumb)
                = Some (''RGBRGB'' @ [CHR 0x00, CHR 0x00])"
    using g p by blast+
  then obtain buffer jpegData thumb where
    "read_all MemStream_Read (?doc, 0) [] = Some (S_OK, buffer, (?doc, 16))"
    "locate buffer = Inr jpegData" "decode ?wic jpegData = Inr thumb"
    "CreateBitmap ?wic (width thumb) (height thumb) 1 24 (data thumb)
       = Some (''RGBRGB'' @ [CHR 0x00, CHR 0x00])"
    by (auto simp: read_all_MemStream)
  then have "decode ?wic ''JPEG'' = Inr thumb"
    "CreateBitmap ?wic (width thumb) (height thumb) 1 24 (data thumb)
       = Some (''RGBRGB'' @ [CHR 0x00, CHR 0x00])"
    by (auto simp: read_all_MemStream locate_example [simplified])
  moreover from this(1) have "width thumb = 2" "height thumb = 1"
    by (auto simp: decode_stub)
  ultimately show ?thesis using same g by blast
qed

end
